theory Spec2Isabelle
  imports Complex_Main "HOL-Library.AList"
begin

section \<open>Data model\<close>

text \<open>
  \<^verbatim>\<open>discovery.DlnaRenderer\<close> and \<^verbatim>\<open>queue_manager.Track\<close> are dataclasses with
  string fields (and one flag); they become records with the source's field names.
\<close>

record DlnaRenderer =
  name :: string
  udn :: string
  location :: string
  supports_next :: bool
  av_transport_control_url :: string
  rendering_control_url :: string
  base_url :: string

record Track =
  url :: string
  title :: string
  artist :: string
  album :: string
  art_url :: string

text \<open>
  The exceptions the modelled code can raise. \<open>External c\<close> is whatever exception the
  library call \<open>c\<close> raised (a SOAP fault, a timeout, a socket error).
\<close>

datatype didl =
  Didl (res_uri: string) (protocol_info: string) (item_title: string)
       (creator: "string option") (item_album: "string option")
       (album_art_uri: "string option")

datatype call =
    StartServer
  | StopServer
  | CreateDevice string
  | Subscribe string
  | SetTransportURI string string string didl
  | Play string
  | SetNextTransportURI string string string didl
  | StopCmd string
  | Unsubscribe string
  | SsdpSearch

datatype error = IndexError | AssertionError | TypeError | External call

text \<open>
  \<^verbatim>\<open>QueueSession\<close>: the \<^verbatim>\<open>_dmr\<close> handle is represented by the description location
  the device object was created from (\<open>None\<close> as in the source). Indices are Python
  integers.
\<close>

record QueueSession =
  renderer :: DlnaRenderer
  tracks :: "Track list"
  current_index :: int
  dmr :: "string option"
  preloaded_index :: "int option"

text \<open>
  Tasks handed to \<^verbatim>\<open>asyncio.create_task\<close> by the event handler. Each is a bound
  method of the session that spawned it and runs after the handler has returned.
\<close>

datatype task = PreloadNext | AutoAdvance | Cleanup

text \<open>
  The process-wide state and the trace of external calls:
  \<^item> \<open>calls\<close>: every call made to an external collaborator, oldest first;
  \<^item> \<open>notify_server\<close>: the module globals \<^verbatim>\<open>_requester\<close>, \<^verbatim>\<open>_notify_server\<close>,
    \<^verbatim>\<open>_event_handler\<close> and \<^verbatim>\<open>_factory\<close>, which the source assigns together and
    resets together, so one flag says whether they are set;
  \<^item> \<open>sessions\<close>: the registry \<^verbatim>\<open>_sessions\<close>, a dict from UDN to a session object, as an
    association list from UDN to the object's address;
  \<^item> \<open>heap\<close>: the session objects, addressed by position;
  \<^item> \<open>renderer_cache\<close>, \<open>cache_time\<close>: the discovery cache of \<^verbatim>\<open>discovery.py\<close>.
\<close>

record world =
  calls :: "call list"
  notify_server :: bool
  sessions :: "(string \<times> nat) list"
  heap :: "QueueSession list"
  renderer_cache :: "DlnaRenderer list"
  cache_time :: real

text \<open>
  The environment decides whether an external call completes or raises, given the calls
  made before it.
\<close>

type_synonym env = "call list \<Rightarrow> call \<Rightarrow> bool"

definition invoke :: "env \<Rightarrow> call \<Rightarrow> world \<Rightarrow> bool \<times> world" where
  "invoke env c w = (env (calls w) c, w\<lparr>calls := calls w @ [c]\<rparr>)"

section \<open>Python list indexing\<close>

text \<open>
  \<^verbatim>\<open>xs[i]\<close>: an index from 0 counts from the front, a negative one from the back, and
  anything else raises \<^verbatim>\<open>IndexError\<close>.
\<close>

definition py_get :: "'a list \<Rightarrow> int \<Rightarrow> error + 'a" where
  "py_get xs i =
     (if 0 \<le> i \<and> i < int (length xs) then Inr (xs ! nat i)
      else if i < 0 \<and> - int (length xs) \<le> i then Inr (xs ! nat (int (length xs) + i))
      else Inl IndexError)"

section \<open>didl.py\<close>

text \<open>
  \<^verbatim>\<open>build_didl_metadata\<close> assembles the arguments of a \<^verbatim>\<open>didl_lite.MusicTrack\<close> and
  lets the library serialise them. The model keeps the assembled item; the fixed
  arguments (\<^verbatim>\<open>id\<close>, \<^verbatim>\<open>parent_id\<close>, \<^verbatim>\<open>restricted\<close>) are left out.
\<close>

definition build_didl_metadata ::
  "string \<Rightarrow> string \<Rightarrow> string \<Rightarrow> string \<Rightarrow> string \<Rightarrow> string \<Rightarrow> didl" where
  "build_didl_metadata u t a al art mime_type =
     Didl u (''http-get:*:'' @ mime_type @ '':*'')
       (if t \<noteq> [] then t else ''Unknown'')
       (if a \<noteq> [] then Some a else None)
       (if al \<noteq> [] then Some al else None)
       (if art \<noteq> [] then Some art else None)"

definition track_metadata :: "Track \<Rightarrow> didl" where
  "track_metadata t =
     build_didl_metadata (url t) (title t) (artist t) (album t) (art_url t) ''audio/flac''"

section \<open>queue\_manager.py: shared infrastructure\<close>

definition ensure_infrastructure :: "env \<Rightarrow> world \<Rightarrow> (error + unit) \<times> world" where
  "ensure_infrastructure env w =
     (if notify_server w then (Inr (), w)
      else
        let (ok, w1) = invoke env StartServer (w\<lparr>notify_server := True\<rparr>)
        in if ok then (Inr (), w1) else (Inl (External StartServer), w1))"

definition shutdown_infrastructure :: "env \<Rightarrow> world \<Rightarrow> (error + unit) \<times> world" where
  "shutdown_infrastructure env w =
     (if notify_server w then
        let (ok, w1) = invoke env StopServer w
        in if ok then (Inr (), w1\<lparr>notify_server := False\<rparr>)
           else (Inl (External StopServer), w1)
      else (Inr (), w\<lparr>notify_server := False\<rparr>))"

section \<open>queue\_manager.py: QueueSession\<close>

definition QueueSession_init :: "DlnaRenderer \<Rightarrow> Track list \<Rightarrow> QueueSession" where
  "QueueSession_init r ts =
     \<lparr>renderer = r, tracks = ts, current_index = 0, dmr = None, preloaded_index = None\<rparr>"

definition preload_next ::
  "env \<Rightarrow> QueueSession \<Rightarrow> world \<Rightarrow> (error + unit) \<times> QueueSession \<times> world" where
  "preload_next env s w =
     (let next_idx = current_index s + 1 in
      if next_idx \<ge> int (length (tracks s)) \<or> \<not> supports_next (renderer s) then (Inr (), s, w)
      else case dmr s of
        None \<Rightarrow> (Inr (), s, w)
      | Some d \<Rightarrow>
          (case py_get (tracks s) next_idx of
             Inl e \<Rightarrow> (Inl e, s, w)
           | Inr track \<Rightarrow>
               let (ok, w1) =
                 invoke env (SetNextTransportURI d (url track) (title track) (track_metadata track)) w
               in if ok then (Inr (), s\<lparr>preloaded_index := Some next_idx\<rparr>, w1)
                  else (Inr (), s\<lparr>preloaded_index := None\<rparr>, w1)))"

text \<open>
  \<^verbatim>\<open>start\<close>: the two assertions on the module globals follow
  \<^verbatim>\<open>_ensure_infrastructure\<close>, after which the globals are set.
\<close>

definition start ::
  "env \<Rightarrow> QueueSession \<Rightarrow> world \<Rightarrow> (error + unit) \<times> QueueSession \<times> world" where
  "start env s w =
     (case ensure_infrastructure env w of
        (Inl e, w1) \<Rightarrow> (Inl e, s, w1)
      | (Inr _, w1) \<Rightarrow>
          if \<not> notify_server w1 then (Inl AssertionError, s, w1)
          else
            let d = location (renderer s);
                (ok2, w2) = invoke env (CreateDevice d) w1
            in if \<not> ok2 then (Inl (External (CreateDevice d)), s, w2)
               else
                 let s1 = s\<lparr>dmr := Some d\<rparr>;
                     (ok3, w3) = invoke env (Subscribe d) w2
                 in if \<not> ok3 then (Inl (External (Subscribe d)), s1, w3)
                    else case py_get (tracks s1) 0 of
                      Inl e \<Rightarrow> (Inl e, s1, w3)
                    | Inr track \<Rightarrow>
                        let c4 = SetTransportURI d (url track) (title track) (track_metadata track);
                            (ok4, w4) = invoke env c4 w3
                        in if \<not> ok4 then (Inl (External c4), s1, w4)
                           else
                             let (ok5, w5) = invoke env (Play d) w4
                             in if \<not> ok5 then (Inl (External (Play d)), s1, w5)
                                else if length (tracks s1) > 1 \<and> supports_next (renderer s1)
                                  then preload_next env s1 w5
                                  else (Inr (), s1, w5))"

text \<open>
  \<^verbatim>\<open>_on_event\<close>: \<open>state_variables\<close> is the dict of the event. The handler is
  synchronous; it returns the task it spawned, if any. \<open>on_event_stopped\<close> is the part of
  the handler after the gapless check (the two \<^verbatim>\<open>STOPPED\<close> cases).
\<close>

definition on_event_stopped :: "QueueSession \<Rightarrow> string option \<Rightarrow> task option" where
  "on_event_stopped s transport_state =
     (if transport_state = Some ''STOPPED'' \<and> \<not> supports_next (renderer s)
         \<and> current_index s < int (length (tracks s)) - 1
      then Some AutoAdvance
      else if transport_state = Some ''STOPPED''
         \<and> current_index s \<ge> int (length (tracks s)) - 1
      then Some Cleanup
      else None)"

definition on_event ::
  "QueueSession \<Rightarrow> (string \<times> string) list \<Rightarrow> (error + task option) \<times> QueueSession" where
  "on_event s state_variables =
     (if state_variables = [] then (Inr None, s)
      else
        let transport_state = map_of state_variables ''TransportState'';
            current_uri = map_of state_variables ''CurrentTrackURI''
        in case (current_uri, preloaded_index s) of
             (Some u, Some p) \<Rightarrow>
               if u = [] then (Inr (on_event_stopped s transport_state), s)
               else (case py_get (tracks s) p of
                 Inl e \<Rightarrow> (Inl e, s)
               | Inr preloaded_track \<Rightarrow>
                   if u = url preloaded_track
                   then (Inr (Some PreloadNext), s\<lparr>current_index := p, preloaded_index := None\<rparr>)
                   else (Inr (on_event_stopped s transport_state), s))
           | _ \<Rightarrow> (Inr (on_event_stopped s transport_state), s))"

definition auto_advance ::
  "env \<Rightarrow> QueueSession \<Rightarrow> world \<Rightarrow> (error + unit) \<times> QueueSession \<times> world" where
  "auto_advance env s w =
     (if current_index s + 1 \<ge> int (length (tracks s)) then (Inr (), s, w)
      else
        let s1 = s\<lparr>current_index := current_index s + 1, preloaded_index := None\<rparr>
        in case py_get (tracks s1) (current_index s1) of
             Inl e \<Rightarrow> (Inl e, s1, w)
           | Inr track \<Rightarrow>
               (case dmr s1 of
                  None \<Rightarrow> (Inr (), s1, w)
                | Some d \<Rightarrow>
                    let (ok1, w1) =
                      invoke env (SetTransportURI d (url track) (title track) (track_metadata track)) w
                    in if \<not> ok1 then (Inr (), s1, w1)
                       else let (ok2, w2) = invoke env (Play d) w1 in (Inr (), s1, w2)))"

text \<open>
  \<^verbatim>\<open>next\<close> (here \<open>skip_next\<close>, since \<open>next\<close> is a keyword of the proof language) and
  \<^verbatim>\<open>previous\<close> share everything after the bounds check and the index update;
  \<open>play_current\<close> is that shared tail, on the session with the index already moved and the
  preload cleared.
\<close>

definition play_current ::
  "env \<Rightarrow> QueueSession \<Rightarrow> world \<Rightarrow> (error + Track option) \<times> QueueSession \<times> world" where
  "play_current env s1 w =
     (case py_get (tracks s1) (current_index s1) of
        Inl e \<Rightarrow> (Inl e, s1, w)
      | Inr track \<Rightarrow>
          (case dmr s1 of
             None \<Rightarrow> (Inl AssertionError, s1, w)
           | Some d \<Rightarrow>
               let c1 = SetTransportURI d (url track) (title track) (track_metadata track);
                   (ok1, w1) = invoke env c1 w
               in if \<not> ok1 then (Inl (External c1), s1, w1)
                  else
                    let (ok2, w2) = invoke env (Play d) w1
                    in if \<not> ok2 then (Inl (External (Play d)), s1, w2)
                       else case preload_next env s1 w2 of
                              (Inl e, s2, w3) \<Rightarrow> (Inl e, s2, w3)
                            | (Inr _, s2, w3) \<Rightarrow> (Inr (Some track), s2, w3)))"

definition skip_next ::
  "env \<Rightarrow> QueueSession \<Rightarrow> world \<Rightarrow> (error + Track option) \<times> QueueSession \<times> world" where
  "skip_next env s w =
     (if current_index s + 1 \<ge> int (length (tracks s)) then (Inr None, s, w)
      else play_current env (s\<lparr>current_index := current_index s + 1, preloaded_index := None\<rparr>) w)"

definition previous ::
  "env \<Rightarrow> QueueSession \<Rightarrow> world \<Rightarrow> (error + Track option) \<times> QueueSession \<times> world" where
  "previous env s w =
     (if current_index s \<le> 0 then (Inr None, s, w)
      else play_current env (s\<lparr>current_index := current_index s - 1, preloaded_index := None\<rparr>) w)"

definition cleanup :: "env \<Rightarrow> QueueSession \<Rightarrow> world \<Rightarrow> (error + unit) \<times> world" where
  "cleanup env s w =
     (let k = udn (renderer s);
          w1 = (if k \<in> set (map fst (sessions w))
                then w\<lparr>sessions := AList.delete k (sessions w)\<rparr> else w)
      in if sessions w1 = [] then shutdown_infrastructure env w1 else (Inr (), w1))"

definition stop ::
  "env \<Rightarrow> QueueSession \<Rightarrow> world \<Rightarrow> (error + unit) \<times> QueueSession \<times> world" where
  "stop env s w =
     (let w2 = (case dmr s of
                  None \<Rightarrow> w
                | Some d \<Rightarrow>
                    let (ok1, w1) = invoke env (StopCmd d) w;
                        (ok2, w2) = invoke env (Unsubscribe d) w1
                    in w2);
          (r, w3) = cleanup env s w2
      in (r, s, w3))"

text \<open>Running a spawned task on the session that spawned it.\<close>

definition run_task ::
  "env \<Rightarrow> task \<Rightarrow> QueueSession \<Rightarrow> world \<Rightarrow> (error + unit) \<times> QueueSession \<times> world" where
  "run_task env t s w =
     (case t of
        PreloadNext \<Rightarrow> preload_next env s w
      | AutoAdvance \<Rightarrow> auto_advance env s w
      | Cleanup \<Rightarrow> (let (r, w1) = cleanup env s w in (r, s, w1)))"

text \<open>
  \<^verbatim>\<open>status\<close> returns a dict; the model returns its entries as a record.
\<close>

record status_info =
  status_renderer :: string
  status_state :: string
  status_track :: int
  status_total_tracks :: nat
  status_title :: "string option"
  status_artist :: "string option"
  status_album :: "string option"

definition status :: "QueueSession \<Rightarrow> error + status_info" where
  "status s =
     (case (if tracks s \<noteq> [] then map_sum id Some (py_get (tracks s) (current_index s))
            else Inr None) of
        Inl e \<Rightarrow> Inl e
      | Inr track \<Rightarrow>
          Inr \<lparr>status_renderer = name (renderer s),
               status_state = (if dmr s \<noteq> None then ''playing'' else ''stopped''),
               status_track = current_index s + 1,
               status_total_tracks = length (tracks s),
               status_title = map_option title track,
               status_artist = map_option artist track,
               status_album = map_option album track\<rparr>)"

section \<open>queue\_manager.py: the session registry\<close>

text \<open>
  A method called on a registered object: the object at address \<open>a\<close> is read from the
  heap, the method runs on it, and the object is written back. The methods themselves
  read and write only their own object, the registry's keys and the shared
  infrastructure. An address in the registry is always allocated (\<open>registry_ok\<close> below).
\<close>

definition stop_at :: "env \<Rightarrow> nat \<Rightarrow> world \<Rightarrow> (error + unit) \<times> world" where
  "stop_at env a w =
     (let (r, s1, w1) = stop env (heap w ! a) w in (r, w1\<lparr>heap := (heap w1)[a := s1]\<rparr>))"

definition start_at :: "env \<Rightarrow> nat \<Rightarrow> world \<Rightarrow> (error + unit) \<times> world" where
  "start_at env a w =
     (let (r, s1, w1) = start env (heap w ! a) w in (r, w1\<lparr>heap := (heap w1)[a := s1]\<rparr>))"

definition play_tracks ::
  "env \<Rightarrow> DlnaRenderer \<Rightarrow> Track list \<Rightarrow> world \<Rightarrow> (error + nat) \<times> world" where
  "play_tracks env r ts w =
     (case (case map_of (sessions w) (udn r) of
              None \<Rightarrow> (Inr (), w)
            | Some existing \<Rightarrow> stop_at env existing w) of
        (Inl e, w1) \<Rightarrow> (Inl e, w1)
      | (Inr _, w1) \<Rightarrow>
          let session = length (heap w1);
              w2 = w1\<lparr>heap := heap w1 @ [QueueSession_init r ts]\<rparr>;
              w3 = w2\<lparr>sessions := AList.update (udn r) session (sessions w2)\<rparr>
          in case start_at env session w3 of
               (Inl e, w4) \<Rightarrow> (Inl e, w4)
             | (Inr _, w4) \<Rightarrow> (Inr session, w4))"

definition get_session :: "string \<Rightarrow> world \<Rightarrow> nat option" where
  "get_session k w = map_of (sessions w) k"

text \<open>
  Well-formedness of the registry: keys are unique (it is a dict), every registered
  address is allocated, and a session is registered under the UDN of its own renderer
  (the only store into the registry is \<^verbatim>\<open>_sessions[renderer.udn] = session\<close>).
\<close>

definition registry_ok :: "world \<Rightarrow> bool" where
  "registry_ok w =
     (distinct (map fst (sessions w))
      \<and> list_all (\<lambda>(k, a). a < length (heap w) \<and> udn (renderer (heap w ! a)) = k) (sessions w))"

text \<open>The number of sessions registered for an identity.\<close>

definition registered_for :: "string \<Rightarrow> world \<Rightarrow> nat" where
  "registered_for k w = length (filter (\<lambda>(k', a). k' = k) (sessions w))"

section \<open>discovery.py\<close>

text \<open>
  One call of \<^verbatim>\<open>discover_renderers\<close> reads from its environment: the clock at the TTL
  check (\<open>t_check\<close>), what a discovery pass yields (\<open>found\<close>: the records parsed from the
  descriptions of the locations that answered the search), and the clock when the cache
  is stored (\<open>t_store\<close>). The multicast search is recorded in the call trace; it raises
  when the socket cannot be opened or written.
\<close>

record scan =
  t_check :: real
  found :: "DlnaRenderer list"
  t_store :: real

definition CACHE_TTL :: real where
  "CACHE_TTL = 300"

definition discover_renderers ::
  "env \<Rightarrow> scan \<Rightarrow> bool \<Rightarrow> world \<Rightarrow> (error + DlnaRenderer list) \<times> world" where
  "discover_renderers env sc force w =
     (if \<not> force \<and> renderer_cache w \<noteq> [] \<and> t_check sc - cache_time w < CACHE_TTL
      then (Inr (renderer_cache w), w)
      else
        let (ok, w1) = invoke env SsdpSearch w
        in if \<not> ok then (Inl (External SsdpSearch), w1)
           else (Inr (found sc), w1\<lparr>renderer_cache := found sc, cache_time := t_store sc\<rparr>))"

text \<open>
  A \<^verbatim>\<open>str\<close> is modelled by the list of its UTF-8 bytes, on which equality and the
  substring test \<^verbatim>\<open>a in b\<close> agree with those on code points. \<^verbatim>\<open>str.lower\<close> belongs
  to the standard library and folds every cased letter of Unicode; the functions that
  call it take it as the parameter \<open>lower\<close>, so that what is proved of them holds for
  the library's function whatever it does on a given name.
\<close>

fun starts_with :: "'a list \<Rightarrow> 'a list \<Rightarrow> bool" where
  "starts_with ys [] = True"
| "starts_with [] (x # xs) = False"
| "starts_with (y # ys) (x # xs) = (x = y \<and> starts_with ys xs)"

fun py_in :: "'a list \<Rightarrow> 'a list \<Rightarrow> bool" where
  "py_in xs [] = (xs = [])"
| "py_in xs (y # ys) = (starts_with (y # ys) xs \<or> py_in xs ys)"

text \<open>The two loops of \<^verbatim>\<open>find_renderer\<close>.\<close>

fun exact_match ::
  "(string \<Rightarrow> string) \<Rightarrow> string \<Rightarrow> DlnaRenderer list \<Rightarrow> DlnaRenderer option" where
  "exact_match lower name_lower [] = None"
| "exact_match lower name_lower (r # rs) =
     (if lower (name r) = name_lower then Some r else exact_match lower name_lower rs)"

fun substring_match ::
  "(string \<Rightarrow> string) \<Rightarrow> string \<Rightarrow> DlnaRenderer list \<Rightarrow> DlnaRenderer option" where
  "substring_match lower name_lower [] = None"
| "substring_match lower name_lower (r # rs) =
     (if py_in name_lower (lower (name r)) then Some r
      else substring_match lower name_lower rs)"

definition match_renderer ::
  "(string \<Rightarrow> string) \<Rightarrow> DlnaRenderer list \<Rightarrow> string \<Rightarrow> DlnaRenderer option" where
  "match_renderer lower renderers nm =
     (let name_lower = lower nm
      in case exact_match lower name_lower renderers of
           Some r \<Rightarrow> Some r
         | None \<Rightarrow> substring_match lower name_lower renderers)"

definition find_renderer ::
  "env \<Rightarrow> (string \<Rightarrow> string) \<Rightarrow> scan \<Rightarrow> string \<Rightarrow> world
     \<Rightarrow> (error + DlnaRenderer option) \<times> world" where
  "find_renderer env lower sc nm w =
     (case discover_renderers env sc False w of
        (Inl e, w1) \<Rightarrow> (Inl e, w1)
      | (Inr renderers, w1) \<Rightarrow> (Inr (match_renderer lower renderers nm), w1))"

section \<open>server.py: the play\_tracks tool\<close>

text \<open>
  The value \<^verbatim>\<open>json.loads\<close> returns. An object is a dict: its keys are unique.
\<close>

datatype json =
    JNull
  | JBool bool
  | JNum real
  | JStr string
  | JArr "json list"
  | JObj "(string \<times> json) list"

fun truthy :: "json \<Rightarrow> bool" where
  "truthy JNull = False"
| "truthy (JBool b) = b"
| "truthy (JNum x) = (x \<noteq> 0)"
| "truthy (JStr s) = (s \<noteq> [])"
| "truthy (JArr xs) = (xs \<noteq> [])"
| "truthy (JObj kvs) = (kvs \<noteq> [])"

text \<open>
  The constructor the \<^verbatim>\<open>@dataclass\<close> decorator generates for \<^verbatim>\<open>Track\<close>, called with
  keyword arguments: a keyword that is not a field is a \<^verbatim>\<open>TypeError\<close>, and so is a
  missing \<^verbatim>\<open>url\<close>, the one field without a default. The fields are annotated
  \<^verbatim>\<open>str\<close>; the record holds strings, and an argument that is not a string has no place
  in it (\<open>TypeError\<close> here).
\<close>

definition Track_fields :: "string list" where
  "Track_fields = [''url'', ''title'', ''artist'', ''album'', ''art_url'']"

fun str_arg :: "(string \<times> json) list \<Rightarrow> string \<Rightarrow> string option" where
  "str_arg kw k =
     (case map_of kw k of None \<Rightarrow> Some [] | Some (JStr v) \<Rightarrow> Some v | Some _ \<Rightarrow> None)"

definition Track_init :: "(string \<times> json) list \<Rightarrow> error + Track" where
  "Track_init kw =
     (if \<not> list_all (\<lambda>k. k \<in> set Track_fields) (map fst kw) then Inl TypeError
      else if map_of kw ''url'' = None then Inl TypeError
      else case (str_arg kw ''url'', str_arg kw ''title'', str_arg kw ''artist'',
                 str_arg kw ''album'', str_arg kw ''art_url'') of
             (Some u, Some t, Some a, Some al, Some art) \<Rightarrow>
               Inr \<lparr>url = u, title = t, artist = a, album = al, art_url = art\<rparr>
           | _ \<Rightarrow> Inl TypeError)"

datatype tool_error =
    RendererNotFound string
  | InvalidTracksJSON
  | TracksNotNonEmptyArray
  | TrackMissingUrl nat
  | PlaybackFailed error

datatype tool_result =
    ToolError tool_error
  | PlaySuccess string nat bool string string string

definition get_or :: "(string \<times> json) list \<Rightarrow> string \<Rightarrow> json \<Rightarrow> json" where
  "get_or t k d = (case map_of t k of None \<Rightarrow> d | Some v \<Rightarrow> v)"

text \<open>
  The loop over \<^verbatim>\<open>enumerate(track_list_raw)\<close>: \<open>i\<close> is the index of the head of the
  remaining list, \<open>track_objects\<close> the tracks built so far.
\<close>

fun build_tracks :: "nat \<Rightarrow> json list \<Rightarrow> Track list \<Rightarrow> error + (tool_error + Track list)" where
  "build_tracks i [] track_objects = Inr (Inr track_objects)"
| "build_tracks i (JObj t # ts) track_objects =
     (if \<not> truthy (get_or t ''url'' JNull) then Inr (Inl (TrackMissingUrl i))
      else case Track_init
                  [(''url'', get_or t ''url'' JNull),
                   (''title'', get_or t ''title'' (JStr [])),
                   (''artist'', get_or t ''artist'' (JStr [])),
                   (''album'', get_or t ''album'' (JStr [])),
                   (''art_url'', get_or t ''art_url'' (JStr [])),
                   (''media_type'', get_or t ''media_type'' (JStr ''audio''))] of
             Inl e \<Rightarrow> Inl e
           | Inr track \<Rightarrow> build_tracks (Suc i) ts (track_objects @ [track]))"
| "build_tracks i (_ # ts) track_objects = Inr (Inl (TrackMissingUrl i))"

text \<open>
  The tool. \<open>loads\<close> is the standard library's \<^verbatim>\<open>json.loads\<close> (\<open>None\<close> where it raises
  \<^verbatim>\<open>JSONDecodeError\<close> or \<^verbatim>\<open>TypeError\<close>) and \<open>lower\<close> its \<^verbatim>\<open>str.lower\<close>. The
  result is either the dict the tool returns or the exception that leaves it.
\<close>

definition play_tracks_tool ::
  "env \<Rightarrow> (string \<Rightarrow> string) \<Rightarrow> (string \<Rightarrow> json option) \<Rightarrow> scan \<Rightarrow> string \<Rightarrow> string
     \<Rightarrow> world \<Rightarrow> (error + tool_result) \<times> world" where
  "play_tracks_tool env lower loads sc renderer_name tracks_arg w =
     (case find_renderer env lower sc renderer_name w of
        (Inl e, w1) \<Rightarrow> (Inl e, w1)
      | (Inr None, w1) \<Rightarrow> (Inr (ToolError (RendererNotFound renderer_name)), w1)
      | (Inr (Some r), w1) \<Rightarrow>
          (case loads tracks_arg of
             None \<Rightarrow> (Inr (ToolError InvalidTracksJSON), w1)
           | Some (JArr (x # xs)) \<Rightarrow>
               (case build_tracks 0 (x # xs) [] of
                  Inl e \<Rightarrow> (Inl e, w1)
                | Inr (Inl err) \<Rightarrow> (Inr (ToolError err), w1)
                | Inr (Inr track_objects) \<Rightarrow>
                    (case play_tracks env r track_objects w1 of
                       (Inl e, w2) \<Rightarrow> (Inr (ToolError (PlaybackFailed e)), w2)
                     | (Inr _, w2) \<Rightarrow>
                         (Inr (PlaySuccess (name r) (length track_objects) (supports_next r)
                                 (title (hd track_objects)) (artist (hd track_objects))
                                 (album (hd track_objects))), w2)))
           | Some _ \<Rightarrow> (Inr (ToolError TracksNotNonEmptyArray), w1)))"

section \<open>The preload invariant\<close>

definition preload_inv :: "QueueSession \<Rightarrow> bool" where
  "preload_inv s =
     (case preloaded_index s of None \<Rightarrow> True | Some p \<Rightarrow> p = current_index s + 1)"

section \<open>Concrete inputs\<close>

text \<open>
  The names and arguments of the concrete inputs below are ASCII text, on which
  \<^verbatim>\<open>str.lower\<close> maps \<^verbatim>\<open>A\<close> to \<^verbatim>\<open>Z\<close> onto \<^verbatim>\<open>a\<close> to \<^verbatim>\<open>z\<close> and leaves the
  other characters alone. \<open>ascii_lower\<close> is that function; it stands for \<^verbatim>\<open>str.lower\<close>
  at those inputs only.
\<close>

definition ascii_lower_char :: "char \<Rightarrow> char" where
  "ascii_lower_char c =
     (let n = (of_char c :: nat) in if 65 \<le> n \<and> n \<le> 90 then char_of (n + 32) else c)"

definition ascii_lower :: "string \<Rightarrow> string" where
  "ascii_lower s = map ascii_lower_char s"

text \<open>A device and a network on which every call completes.\<close>

definition env_ok :: env where
  "env_ok = (\<lambda>h c. True)"

definition hifi :: DlnaRenderer where
  "hifi = \<lparr>name = ''HiFiBerry Garten'', udn = ''uuid:test-1234'',
           location = ''http://192.168.1.100:49152/description.xml'',
           supports_next = True,
           av_transport_control_url = ''http://192.168.1.100:49152/AVTransport/control'',
           rendering_control_url = ''http://192.168.1.100:49152/RenderingControl/control'',
           base_url = ''http://192.168.1.100:49152''\<rparr>"

definition linn :: DlnaRenderer where
  "linn = hifi\<lparr>name := ''Linn DS'', udn := ''uuid:linn'', supports_next := False\<rparr>"

definition track_a :: Track where
  "track_a = \<lparr>url = ''http://jellyfin/a.flac'', title = ''A'', artist = ''Artist'',
              album = ''Album'', art_url = []\<rparr>"

definition track_b :: Track where
  "track_b = track_a\<lparr>url := ''http://jellyfin/b.flac'', title := ''B''\<rparr>"

definition track_c :: Track where
  "track_c = track_a\<lparr>url := ''http://jellyfin/c.flac'', title := ''C''\<rparr>"

definition world0 :: world where
  "world0 = \<lparr>calls = [], notify_server = False, sessions = [], heap = [],
             renderer_cache = [], cache_time = 0\<rparr>"

definition linn_playing :: QueueSession where
  "linn_playing = (QueueSession_init linn [track_a, track_b])\<lparr>dmr := Some (location linn)\<rparr>"


text \<open>The device calls \<^verbatim>\<open>stop()\<close> makes before the teardown.\<close>

definition stop_calls :: "QueueSession \<Rightarrow> call list" where
  "stop_calls s = (case dmr s of None \<Rightarrow> [] | Some d \<Rightarrow> [StopCmd d, Unsubscribe d])"

text \<open>
  A session started through the registry on an idle process, and the world after that
  session has been stopped once.
\<close>

definition playing_world :: world where
  "playing_world = snd (play_tracks env_ok hifi [track_a, track_b, track_c] world0)"

definition stopped_once :: world where
  "stopped_once = snd (stop_at env_ok 0 playing_world)"

text \<open>The number of multicast searches in the trace.\<close>

definition searches :: "world \<Rightarrow> nat" where
  "searches w = length (filter (\<lambda>c. c = SsdpSearch) (calls w))"

text \<open>
  What the environment supplies to a first and a second call of \<^verbatim>\<open>discover_renderers\<close>,
  ten seconds apart, on a network with one renderer and on one with none.
\<close>

definition first_scan :: scan where
  "first_scan = \<lparr>t_check = 10, found = [hifi], t_store = 14\<rparr>"

definition second_scan :: scan where
  "second_scan = \<lparr>t_check = 20, found = [linn], t_store = 24\<rparr>"

definition empty_first_scan :: scan where
  "empty_first_scan = \<lparr>t_check = 10, found = [], t_store = 14\<rparr>"

definition empty_second_scan :: scan where
  "empty_second_scan = \<lparr>t_check = 20, found = [], t_store = 24\<rparr>"

text \<open>The first position of a list at which a predicate holds.\<close>

definition first_at :: "('a \<Rightarrow> bool) \<Rightarrow> 'a list \<Rightarrow> nat \<Rightarrow> bool" where
  "first_at P xs i \<longleftrightarrow> i < length xs \<and> P (xs ! i) \<and> (\<forall>j<i. \<not> P (xs ! j))"

text \<open>Two renderers whose names differ by a suffix, the longer discovered first.\<close>

definition samsung_tv :: DlnaRenderer where
  "samsung_tv = hifi\<lparr>name := ''Samsung TV'', udn := ''uuid:tv''\<rparr>"

definition samsung_tv_living_room :: DlnaRenderer where
  "samsung_tv_living_room = hifi\<lparr>name := ''Samsung TV Living Room'', udn := ''uuid:tv-lr''\<rparr>"

definition tv_world :: world where
  "tv_world = world0\<lparr>renderer_cache := [samsung_tv_living_room, samsung_tv], cache_time := 5\<rparr>"

definition tv_scan :: scan where
  "tv_scan = \<lparr>t_check = 10, found = [], t_store = 11\<rparr>"

text \<open>
  \<^verbatim>\<open>json.loads\<close> on the texts used in the theorems below; every other text stands for
  one that is not JSON.
\<close>

definition two_tracks_text :: string where
  \<open>two_tracks_text = ''[{"url": "http://jellyfin/track1.flac", "title": "Track 1"}, {"url": "http://jellyfin/track2.flac", "title": "Track 2"}]''\<close>

definition json_samples :: "string \<Rightarrow> json option" where
  \<open>json_samples text =
     (if text = two_tracks_text then
        Some (JArr [JObj [(''url'', JStr ''http://jellyfin/track1.flac''), (''title'', JStr ''Track 1'')],
                    JObj [(''url'', JStr ''http://jellyfin/track2.flac''), (''title'', JStr ''Track 2'')]])
      else if text = ''[]'' then Some (JArr [])
      else if text = ''[{"title": "No URL"}]'' then Some (JArr [JObj [(''title'', JStr ''No URL'')]])
      else if text = ''[{"url": "http://jellyfin/track1.flac"}, {"title": "No URL"}]'' then
        Some (JArr [JObj [(''url'', JStr ''http://jellyfin/track1.flac'')],
                    JObj [(''title'', JStr ''No URL'')]])
      else if text = ''{"url": "http://jellyfin/track1.flac"}'' then
        Some (JObj [(''url'', JStr ''http://jellyfin/track1.flac'')])
      else None)\<close>


text \<open>
  \<^verbatim>\<open>_preload_next\<close> is a coroutine that suspends once, at
  \<^verbatim>\<open>await self._dmr.async_set_next_transport_uri(...)\<close>: it reads \<open>next_idx\<close> and
  sends the request before the await, and stores \<open>next_idx\<close> (or clears the preload, when
  the request raised) after it. While it is suspended the event loop runs the session's
  other coroutines. \<open>preload_next_request\<close> is the part before the await, returning the
  suspended coroutine's \<open>next_idx\<close> and the outcome its request will have (\<open>None\<close> when
  the coroutine returned without suspending); \<open>preload_next_resume\<close> is the part after.
\<close>

definition preload_next_request ::
  "env \<Rightarrow> QueueSession \<Rightarrow> world \<Rightarrow> (error + (int \<times> bool) option) \<times> world" where
  "preload_next_request env s w =
     (let next_idx = current_index s + 1 in
      if next_idx \<ge> int (length (tracks s)) \<or> \<not> supports_next (renderer s) then (Inr None, w)
      else case dmr s of
        None \<Rightarrow> (Inr None, w)
      | Some d \<Rightarrow>
          (case py_get (tracks s) next_idx of
             Inl e \<Rightarrow> (Inl e, w)
           | Inr track \<Rightarrow>
               let (ok, w1) =
                 invoke env (SetNextTransportURI d (url track) (title track) (track_metadata track)) w
               in (Inr (Some (next_idx, ok)), w1)))"

definition preload_next_resume :: "int \<times> bool \<Rightarrow> QueueSession \<Rightarrow> QueueSession" where
  "preload_next_resume pending s =
     (if snd pending then s\<lparr>preloaded_index := Some (fst pending)\<rparr>
      else s\<lparr>preloaded_index := None\<rparr>)"




section \<open>Navigation at the ends of the queue\<close>

text \<open>
  C10. \<^verbatim>\<open>next()\<close> on the last track index returns \<^verbatim>\<open>None\<close> and changes neither the
  session nor anything else; \<^verbatim>\<open>previous()\<close> at index 0 does the same.
\<close>

theorem skip_at_ends_is_noop:
  "(current_index s = int (length (tracks s)) - 1 \<longrightarrow> skip_next env s w = (Inr None, s, w))
   \<and> (current_index s = 0 \<longrightarrow> previous env s w = (Inr None, s, w))"
  by (simp add: skip_next_def previous_def)

theorem skip_at_ends_is_noop_witness:
  "current_index (QueueSession_init hifi [track_a])
     = int (length (tracks (QueueSession_init hifi [track_a]))) - 1
   \<and> current_index (QueueSession_init hifi [track_a]) = 0
   \<and> skip_next env_ok (QueueSession_init hifi [track_a]) world0
       = (Inr None, QueueSession_init hifi [track_a], world0)
   \<and> previous env_ok (QueueSession_init hifi [track_a]) world0
       = (Inr None, QueueSession_init hifi [track_a], world0)"
  using skip_at_ends_is_noop [of "QueueSession_init hifi [track_a]" env_ok world0]
  by (simp add: QueueSession_init_def)

section \<open>Gapless transition and the fallback without preload\<close>

lemma py_get_in_range: "0 \<le> i \<Longrightarrow> i < int (length xs) \<Longrightarrow> py_get xs i = Inr (xs ! nat i)"
  by (simp add: py_get_def)

text \<open>
  C1. On a renderer that supports gapless preload, with at least three tracks and a
  device that accepts the commands: after \<^verbatim>\<open>start()\<close> the preloaded index is 1; an
  event whose \<^verbatim>\<open>CurrentTrackURI\<close> is the (non-empty) URL of track 1 moves
  \<open>current_index\<close> to 1 and clears the preload, and the preload task the handler spawned
  preloads index 2. The only call made for the transition is that
  \<^verbatim>\<open>SetNextAVTransportURI\<close>: no \<^verbatim>\<open>SetAVTransportURI\<close> is issued.
\<close>

theorem gapless_start_and_transition:
  assumes gapless: "supports_next r"
    and len: "3 \<le> length ts"
    and ok: "\<forall>h c. env h c"
    and nonempty: "url (ts ! 1) \<noteq> []"
    and ev: "map_of sv ''CurrentTrackURI'' = Some (url (ts ! 1))"
  shows "case start env (QueueSession_init r ts) w of (res1, s1, w1) \<Rightarrow>
           res1 = Inr () \<and> current_index s1 = 0 \<and> preloaded_index s1 = Some 1
           \<and> (case on_event s1 sv of (res2, s2) \<Rightarrow>
                res2 = Inr (Some PreloadNext) \<and> current_index s2 = 1 \<and> preloaded_index s2 = None
                \<and> (case run_task env PreloadNext s2 w1 of (res3, s3, w3) \<Rightarrow>
                     res3 = Inr () \<and> current_index s3 = 1 \<and> preloaded_index s3 = Some 2
                     \<and> calls w3 = calls w1 @
                         [SetNextTransportURI (location r) (url (ts ! 2)) (title (ts ! 2))
                            (track_metadata (ts ! 2))]))"
proof -
  have sv: "sv \<noteq> []" using ev by auto
  have g0: "py_get ts 0 = Inr (ts ! 0)" "py_get ts 1 = Inr (ts ! 1)" "py_get ts 2 = Inr (ts ! 2)"
    using len by (auto simp add: py_get_def)
  show ?thesis
    using gapless len ok nonempty ev sv g0
    by (simp add: start_def ensure_infrastructure_def invoke_def QueueSession_init_def
        preload_next_def on_event_def run_task_def Let_def split: prod.splits)
qed

text \<open>
  C7. On a renderer without gapless preload (so with no preload outstanding), with the
  current index strictly before the last track, a live device handle and a device that
  accepts the commands: an event reporting \<^verbatim>\<open>STOPPED\<close> spawns the auto-advance task,
  which moves \<open>current_index\<close> on by one and issues \<^verbatim>\<open>SetAVTransportURI\<close> and
  \<^verbatim>\<open>Play\<close> for the next track, and nothing else.
\<close>

theorem stopped_event_advances_without_gapless:
  assumes nogap: "\<not> supports_next (renderer s)"
    and lo: "0 \<le> current_index s"
    and hi: "current_index s < int (length (tracks s)) - 1"
    and nopre: "preloaded_index s = None"
    and live: "dmr s = Some d"
    and ok: "\<forall>h c. env h c"
    and ev: "map_of sv ''TransportState'' = Some ''STOPPED''"
  shows "on_event s sv = (Inr (Some AutoAdvance), s)
         \<and> (case run_task env AutoAdvance s w of (res, s', w') \<Rightarrow>
              res = Inr () \<and> current_index s' = current_index s + 1
              \<and> calls w' = calls w @
                  [SetTransportURI d (url (tracks s ! nat (current_index s + 1)))
                     (title (tracks s ! nat (current_index s + 1)))
                     (track_metadata (tracks s ! nat (current_index s + 1))),
                   Play d])"
proof -
  have sv: "sv \<noteq> []" using ev by auto
  have g: "py_get (tracks s) (current_index s + 1) = Inr (tracks s ! nat (current_index s + 1))"
    using lo hi by (simp add: py_get_def)
  have 1: "on_event s sv = (Inr (Some AutoAdvance), s)"
    using nogap hi nopre ev sv
    by (simp add: on_event_def on_event_stopped_def Let_def split: option.splits)
  have 2: "(case run_task env AutoAdvance s w of (res, s', w') \<Rightarrow>
              res = Inr () \<and> current_index s' = current_index s + 1
              \<and> calls w' = calls w @
                  [SetTransportURI d (url (tracks s ! nat (current_index s + 1)))
                     (title (tracks s ! nat (current_index s + 1)))
                     (track_metadata (tracks s ! nat (current_index s + 1))),
                   Play d])"
    using hi live ok g
    by (simp add: run_task_def auto_advance_def invoke_def Let_def)
  show ?thesis using 1 2 by blast
qed


theorem gapless_start_and_transition_witness:
  "supports_next hifi \<and> 3 \<le> length [track_a, track_b, track_c] \<and> (\<forall>h c. env_ok h c)
   \<and> url ([track_a, track_b, track_c] ! 1) \<noteq> []
   \<and> map_of [(''TransportState'', ''PLAYING''), (''CurrentTrackURI'', ''http://jellyfin/b.flac'')]
        ''CurrentTrackURI'' = Some (url ([track_a, track_b, track_c] ! 1))
   \<and> (case start env_ok (QueueSession_init hifi [track_a, track_b, track_c]) world0 of
        (res1, s1, w1) \<Rightarrow>
           res1 = Inr () \<and> current_index s1 = 0 \<and> preloaded_index s1 = Some 1
           \<and> (case on_event s1
                  [(''TransportState'', ''PLAYING''), (''CurrentTrackURI'', ''http://jellyfin/b.flac'')] of
                (res2, s2) \<Rightarrow>
                res2 = Inr (Some PreloadNext) \<and> current_index s2 = 1 \<and> preloaded_index s2 = None
                \<and> (case run_task env_ok PreloadNext s2 w1 of (res3, s3, w3) \<Rightarrow>
                     res3 = Inr () \<and> current_index s3 = 1 \<and> preloaded_index s3 = Some 2
                     \<and> calls w3 = calls w1 @
                         [SetNextTransportURI (location hifi) (url ([track_a, track_b, track_c] ! 2))
                            (title ([track_a, track_b, track_c] ! 2))
                            (track_metadata ([track_a, track_b, track_c] ! 2))])))"
proof -
  have h1: "supports_next hifi" by (simp add: hifi_def)
  have h2: "3 \<le> length [track_a, track_b, track_c]" by simp
  have h3: "\<forall>h c. env_ok h c" by (simp add: env_ok_def)
  have h4: "url ([track_a, track_b, track_c] ! 1) \<noteq> []" by (simp add: track_b_def track_a_def)
  have h5: "map_of [(''TransportState'', ''PLAYING''), (''CurrentTrackURI'', ''http://jellyfin/b.flac'')]
        ''CurrentTrackURI'' = Some (url ([track_a, track_b, track_c] ! 1))"
    by (simp add: track_b_def track_a_def)
  show ?thesis
    using h1 h2 h3 h4 h5 gapless_start_and_transition [OF h1 h2 h3 h4 h5, of world0]
    by blast
qed

theorem stopped_event_advances_without_gapless_witness:
  "\<not> supports_next (renderer linn_playing) \<and> 0 \<le> current_index linn_playing
   \<and> current_index linn_playing < int (length (tracks linn_playing)) - 1
   \<and> preloaded_index linn_playing = None \<and> dmr linn_playing = Some (location linn)
   \<and> (\<forall>h c. env_ok h c)
   \<and> map_of [(''TransportState'', ''STOPPED'')] ''TransportState'' = Some ''STOPPED''
   \<and> on_event linn_playing [(''TransportState'', ''STOPPED'')] = (Inr (Some AutoAdvance), linn_playing)
   \<and> (case run_task env_ok AutoAdvance linn_playing world0 of (res, s', w') \<Rightarrow>
        res = Inr () \<and> current_index s' = current_index linn_playing + 1
        \<and> calls w' = calls world0 @
            [SetTransportURI (location linn)
               (url (tracks linn_playing ! nat (current_index linn_playing + 1)))
               (title (tracks linn_playing ! nat (current_index linn_playing + 1)))
               (track_metadata (tracks linn_playing ! nat (current_index linn_playing + 1))),
             Play (location linn)])"
proof -
  have h1: "\<not> supports_next (renderer linn_playing)"
    by (simp add: linn_playing_def QueueSession_init_def linn_def)
  have h2: "0 \<le> current_index linn_playing"
    by (simp add: linn_playing_def QueueSession_init_def)
  have h3: "current_index linn_playing < int (length (tracks linn_playing)) - 1"
    by (simp add: linn_playing_def QueueSession_init_def)
  have h4: "preloaded_index linn_playing = None"
    by (simp add: linn_playing_def QueueSession_init_def)
  have h5: "dmr linn_playing = Some (location linn)"
    by (simp add: linn_playing_def QueueSession_init_def)
  have h6: "\<forall>h c. env_ok h c" by (simp add: env_ok_def)
  have h7: "map_of [(''TransportState'', ''STOPPED'')] ''TransportState'' = Some ''STOPPED''"
    by simp
  show ?thesis
    using h1 h2 h3 h4 h5 h6 h7
      stopped_event_advances_without_gapless [OF h1 h2 h3 h4 h5 h6 h7, of world0]
    by blast
qed

section \<open>The preload invariant is preserved\<close>

lemma preload_inv_iff:
  "preload_inv s \<longleftrightarrow>
     preloaded_index s = None \<or> preloaded_index s = Some (current_index s + 1)"
  by (auto simp add: preload_inv_def split: option.splits)

lemma preload_next_cases:
  "preload_next env s w = (res, s', w') \<Longrightarrow>
     current_index s' = current_index s \<and> tracks s' = tracks s \<and> renderer s' = renderer s
     \<and> dmr s' = dmr s
     \<and> (preloaded_index s' = preloaded_index s \<or> preloaded_index s' = None
          \<or> (preloaded_index s' = Some (current_index s + 1) \<and> supports_next (renderer s)))"
  by (auto simp add: preload_next_def Let_def invoke_def split: if_splits option.splits sum.splits)

lemma preload_next_inv:
  "preload_inv s \<Longrightarrow> preload_inv (fst (snd (preload_next env s w)))"
  using preload_next_cases [of env s w "fst (preload_next env s w)"
      "fst (snd (preload_next env s w))" "snd (snd (preload_next env s w))"]
  by (auto simp add: preload_inv_iff)

lemma preload_next_fresh:
  "preloaded_index s = None \<Longrightarrow> preload_inv (fst (snd (preload_next env s w)))"
  by (rule preload_next_inv) (simp add: preload_inv_iff)



lemma auto_advance_inv: "preload_inv s \<Longrightarrow> preload_inv (fst (snd (auto_advance env s w)))"
  by (auto simp add: auto_advance_def Let_def preload_inv_iff split: option.splits sum.splits prod.splits)

lemma run_task_inv: "preload_inv s \<Longrightarrow> preload_inv (fst (snd (run_task env t s w)))"
  by (cases t) (simp_all add: run_task_def preload_next_inv auto_advance_inv split: prod.splits)



lemma preload_next_split:
  "preload_next env s w =
     (case preload_next_request env s w of
        (Inl e, w1) \<Rightarrow> (Inl e, s, w1)
      | (Inr None, w1) \<Rightarrow> (Inr (), s, w1)
      | (Inr (Some pending), w1) \<Rightarrow> (Inr (), preload_next_resume pending s, w1))"
  by (simp add: preload_next_def preload_next_request_def preload_next_resume_def Let_def
      invoke_def split: option.splits sum.splits)





text \<open>
  Without gapless support no preload is ever recorded: a session on such a renderer
  starts with no preload outstanding, and no operation gives it one.
\<close>

lemma no_gapless_never_preloads:
  assumes "\<not> supports_next (renderer s)" and "preloaded_index s = None"
  shows "preloaded_index (fst (snd (start env s w))) = None"
    and "preloaded_index (snd (on_event s sv)) = None"
    and "preloaded_index (fst (snd (run_task env t s w))) = None"
    and "preloaded_index (fst (snd (skip_next env s w))) = None"
    and "preloaded_index (fst (snd (previous env s w))) = None"
proof -
  have pn: "preload_next env s' w' = (Inr (), s', w')" if "\<not> supports_next (renderer s')" for s' w'
    using that by (simp add: preload_next_def)
  show "preloaded_index (fst (snd (start env s w))) = None"
    using assms by (auto simp add: start_def Let_def split: prod.splits sum.splits)
  show "preloaded_index (snd (on_event s sv)) = None"
    using assms by (auto simp add: on_event_def Let_def split: option.splits sum.splits)
  show "preloaded_index (fst (snd (run_task env t s w))) = None"
    using assms pn
    by (cases t) (auto simp add: run_task_def auto_advance_def Let_def
        split: prod.splits sum.splits option.splits)
  show "preloaded_index (fst (snd (skip_next env s w))) = None"
    using assms pn
    by (auto simp add: skip_next_def play_current_def Let_def
        split: prod.splits sum.splits option.splits)
  show "preloaded_index (fst (snd (previous env s w))) = None"
    using assms pn
    by (auto simp add: previous_def play_current_def Let_def
        split: prod.splits sum.splits option.splits)
qed

section \<open>Stopping a session\<close>

lemma invoke_world:
  "invoke env c w = (b, w') \<Longrightarrow>
     w' = w\<lparr>calls := calls w @ [c]\<rparr>"
  by (auto simp add: invoke_def)

lemma shutdown_infrastructure_world:
  "shutdown_infrastructure env w = (res, w') \<Longrightarrow>
     sessions w' = sessions w \<and> heap w' = heap w \<and> renderer_cache w' = renderer_cache w
     \<and> cache_time w' = cache_time w
     \<and> (calls w' = calls w \<or> calls w' = calls w @ [StopServer])
     \<and> (res = Inr () \<longrightarrow> \<not> notify_server w')"
  by (auto simp add: shutdown_infrastructure_def invoke_def split: if_splits)

lemma shutdown_infrastructure_ok:
  "\<forall>h. env h StopServer \<Longrightarrow> fst (shutdown_infrastructure env w) = Inr ()"
  by (simp add: shutdown_infrastructure_def invoke_def)

lemma cleanup_alt:
  "cleanup env s w =
     (if AList.delete (udn (renderer s)) (sessions w) = []
      then shutdown_infrastructure env (w\<lparr>sessions := AList.delete (udn (renderer s)) (sessions w)\<rparr>)
      else (Inr (), w\<lparr>sessions := AList.delete (udn (renderer s)) (sessions w)\<rparr>))"
proof (cases "udn (renderer s) \<in> fst ` set (sessions w)")
  case True
  then show ?thesis by (simp add: cleanup_def Let_def)
next
  case False
  then have d: "AList.delete (udn (renderer s)) (sessions w) = sessions w" by simp
  have e: "w\<lparr>sessions := sessions w\<rparr> = w" by simp
  have "cleanup env s w = (if sessions w = [] then shutdown_infrastructure env w else (Inr (), w))"
    using False by (simp add: cleanup_def Let_def)
  then show ?thesis by (simp only: d e)
qed

lemma cleanup_world:
  "cleanup env s w = (res, w') \<Longrightarrow>
     sessions w' = AList.delete (udn (renderer s)) (sessions w) \<and> heap w' = heap w
     \<and> renderer_cache w' = renderer_cache w \<and> cache_time w' = cache_time w
     \<and> (calls w' = calls w \<or> calls w' = calls w @ [StopServer])
     \<and> (res = Inr () \<longrightarrow> sessions w' = [] \<longrightarrow> \<not> notify_server w')
     \<and> (sessions w' \<noteq> [] \<longrightarrow> notify_server w' = notify_server w \<and> calls w' = calls w \<and> res = Inr ())"
proof (cases "AList.delete (udn (renderer s)) (sessions w) = []")
  case True
  assume "cleanup env s w = (res, w')"
  then have "shutdown_infrastructure env
      (w\<lparr>sessions := AList.delete (udn (renderer s)) (sessions w)\<rparr>) = (res, w')"
    using True by (simp add: cleanup_alt)
  from shutdown_infrastructure_world [OF this] True show ?thesis by simp
next
  case False
  assume "cleanup env s w = (res, w')"
  then show ?thesis using False by (auto simp add: cleanup_alt)
qed

lemma cleanup_ok: "\<forall>h. env h StopServer \<Longrightarrow> fst (cleanup env s w) = Inr ()"
  by (simp add: cleanup_alt shutdown_infrastructure_ok)

lemma stop_unfold:
  "stop env s w = (case cleanup env s (w\<lparr>calls := calls w @ stop_calls s\<rparr>) of (r, w3) \<Rightarrow> (r, s, w3))"
  by (cases "dmr s") (simp_all add: stop_def stop_calls_def invoke_def Let_def)

lemma preload_next_world:
  "preload_next env s w = (res, s', w') \<Longrightarrow>
     sessions w' = sessions w \<and> heap w' = heap w
     \<and> (\<exists>cs. calls w' = calls w @ cs)"
  by (auto simp add: preload_next_def Let_def invoke_def split: if_splits option.splits sum.splits)

lemma ensure_infrastructure_world:
  "ensure_infrastructure env w = (res, w') \<Longrightarrow>
     sessions w' = sessions w \<and> heap w' = heap w
     \<and> (\<exists>cs. calls w' = calls w @ cs)"
  by (auto simp add: ensure_infrastructure_def invoke_def split: if_splits)

lemma start_world:
  assumes "start env s w = (res, s', w')"
  shows "sessions w' = sessions w \<and> heap w' = heap w
     \<and> renderer s' = renderer s \<and> tracks s' = tracks s
     \<and> (\<exists>cs. calls w' = calls w @ cs)"
proof -
  obtain r1 w1 where e: "ensure_infrastructure env w = (r1, w1)" by fastforce
  note ew = ensure_infrastructure_world [OF e]
  have pn: "\<And>s2 w2 r3 s3 w3. preload_next env s2 w2 = (r3, s3, w3) \<Longrightarrow>
      sessions w3 = sessions w2 \<and> heap w3 = heap w2 \<and> renderer s3 = renderer s2
      \<and> tracks s3 = tracks s2 \<and> (\<exists>cs. calls w3 = calls w2 @ cs)"
    using preload_next_world preload_next_cases by metis
  show ?thesis
    using assms e ew
    apply (simp add: start_def Let_def invoke_def split: sum.splits if_splits)
    apply (auto dest!: pn)
    done
qed

lemma update_after_delete:
  "AList.update k v (AList.delete k al) = AList.delete k al @ [(k, v)]"
  by (induction al) auto

lemma delete_set: "set (AList.delete k al) = {p \<in> set al. fst p \<noteq> k}"
  by (auto simp add: AList.delete_eq)

lemma registered_for_after_replace:
  "length (filter (\<lambda>(k', a). k' = k) (AList.delete k al @ [(k, v)])) = 1"
  by (induction al) auto

lemma registered_for_after_delete:
  "length (filter (\<lambda>(k', a). k' = k) (AList.delete k al)) = 0"
  by (induction al) auto

lemma stop_at_registered:
  assumes "a < length (heap w)"
  shows "stop_at env a w = (case stop env (heap w ! a) w of (r, s1, w1) \<Rightarrow> (r, w1))"
proof -
  obtain r s1 w1 where st: "stop env (heap w ! a) w = (r, s1, w1)"
    by (metis prod_cases3)
  then have c: "cleanup env (heap w ! a) (w\<lparr>calls := calls w @ stop_calls (heap w ! a)\<rparr>) = (r, w1)"
    and s1: "s1 = heap w ! a"
    by (auto simp add: stop_unfold split: prod.splits)
  from cleanup_world [OF c] have "heap w1 = heap w" by simp
  then have "(heap w1)[a := s1] = heap w1" using s1 by simp
  then have "w1\<lparr>heap := (heap w1)[a := s1]\<rparr> = w1" by simp
  then show ?thesis using st by (simp add: stop_at_def)
qed

text \<open>
  C6, as the code has it. \<^verbatim>\<open>stop()\<close> never clears \<^verbatim>\<open>_dmr\<close>, so a second call on a
  session whose first \<^verbatim>\<open>stop()\<close> returned still finds the device handle and issues
  the best-effort stop and unsubscribe commands again (none when the session never had
  a handle). Apart from those calls it returns normally and leaves the session, the
  registry and the shared infrastructure exactly as the first call left them.
\<close>

theorem repeated_stop_reissues_commands:
  assumes first: "stop env s w = (Inr (), s1, w1)"
  shows "s1 = s \<and> stop env s w1 = (Inr (), s, w1\<lparr>calls := calls w1 @ stop_calls s\<rparr>)"
proof -
  let ?k = "udn (renderer s)"
  let ?w2 = "w1\<lparr>calls := calls w1 @ stop_calls s\<rparr>"
  from first have c: "cleanup env s (w\<lparr>calls := calls w @ stop_calls s\<rparr>) = (Inr (), w1)"
    and s1: "s1 = s"
    by (auto simp add: stop_unfold split: prod.splits)
  from cleanup_world [OF c]
  have del: "sessions w1 = AList.delete ?k (sessions (w\<lparr>calls := calls w @ stop_calls s\<rparr>))"
    and off: "sessions w1 = [] \<longrightarrow> \<not> notify_server w1"
    by simp_all
  have idem: "AList.delete ?k (sessions ?w2) = sessions w1"
    using del by (simp add: AList.delete_idem)
  have same: "?w2\<lparr>sessions := sessions w1\<rparr> = ?w2" by simp
  have ca: "cleanup env s ?w2 =
      (if sessions w1 = [] then shutdown_infrastructure env ?w2 else (Inr (), ?w2))"
    using cleanup_alt [of env s ?w2] unfolding idem same .
  have "cleanup env s ?w2 = (Inr (), ?w2)"
  proof (cases "sessions w1 = []")
    case True
    then have "\<not> notify_server ?w2" using off by simp
    then have "shutdown_infrastructure env ?w2 = (Inr (), ?w2)"
      by (simp add: shutdown_infrastructure_def)
    then show ?thesis using True by (simp add: ca)
  next
    case False
    then show ?thesis by (simp add: ca)
  qed
  then show ?thesis using s1 by (simp add: stop_unfold)
qed

theorem repeated_stop_reissues_commands_witness:
  "stop env_ok (heap playing_world ! 0) playing_world
     = (Inr (), heap playing_world ! 0, stopped_once)
   \<and> stop env_ok (heap playing_world ! 0) stopped_once
     = (Inr (), heap playing_world ! 0,
        stopped_once\<lparr>calls := calls stopped_once @ stop_calls (heap playing_world ! 0)\<rparr>)"
proof -
  have a: "0 < length (heap playing_world)" by code_simp
  have f: "fst (stop env_ok (heap playing_world ! 0) playing_world) = Inr ()" by code_simp
  have s: "fst (snd (stop env_ok (heap playing_world ! 0) playing_world)) = heap playing_world ! 0"
    by (simp add: stop_unfold case_prod_beta)
  have w: "snd (snd (stop env_ok (heap playing_world ! 0) playing_world)) = stopped_once"
    using stop_at_registered [OF a, of env_ok] by (simp add: stopped_once_def case_prod_beta)
  have h: "stop env_ok (heap playing_world ! 0) playing_world
     = (Inr (), heap playing_world ! 0, stopped_once)"
    using f s w by (metis prod.collapse)
  show ?thesis
    using h repeated_stop_reissues_commands [OF h] by simp
qed

text \<open>
  C6, as stated, fails: after a session has been started through the registry and
  stopped once, its device handle is still set, \<^verbatim>\<open>status()\<close> still reports
  \<^verbatim>\<open>playing\<close>, and a second \<^verbatim>\<open>stop()\<close> sends two more commands to the device.
\<close>

theorem second_stop_finds_handle_counterexample:
  "get_session (udn hifi) playing_world = Some 0
   \<and> fst (stop_at env_ok 0 playing_world) = Inr ()
   \<and> dmr (heap stopped_once ! 0) = Some (location hifi)
   \<and> map_sum id status_state (status (heap stopped_once ! 0)) = Inr ''playing''
   \<and> calls (snd (stop_at env_ok 0 stopped_once))
       = calls stopped_once @ [StopCmd (location hifi), Unsubscribe (location hifi)]"
  by code_simp

section \<open>The registry holds one session per identity\<close>

text \<open>
  C3. When \<^verbatim>\<open>play_tracks\<close> is called for an identity that has a registered session
  (in a well-formed registry, with a notify server whose shutdown does not fail): the
  old session's \<^verbatim>\<open>stop()\<close> returns and leaves no session registered for the identity;
  afterwards the registry holds exactly one session for the identity, the newly created
  object with the new tracks, the old object is registered nowhere, the registry is
  well-formed again (so every identity has at most one session), and every external
  call made for the new session comes after the calls of the old session's stop path.
  This holds whether or not the new session's \<^verbatim>\<open>start()\<close> succeeds.
\<close>

theorem play_tracks_replaces_session:
  assumes wf: "registry_ok w"
    and existing: "map_of (sessions w) (udn r) = Some a"
    and ok: "\<forall>h. env h StopServer"
  shows "case stop env (heap w ! a) w of (res0, s0, w0) \<Rightarrow>
           res0 = Inr () \<and> registered_for (udn r) w0 = 0
           \<and> (case play_tracks env r ts w of (res, w') \<Rightarrow>
                (res = Inr (length (heap w)) \<or> (\<exists>e. res = Inl e))
                \<and> get_session (udn r) w' = Some (length (heap w)) \<and> a < length (heap w)
                \<and> registered_for (udn r) w' = 1
                \<and> registry_ok w'
                \<and> a \<notin> snd ` set (sessions w')
                \<and> (\<exists>cs. calls w' = calls w0 @ cs)
                \<and> renderer (heap w' ! length (heap w)) = r
                \<and> tracks (heap w' ! length (heap w)) = ts
                \<and> heap w' ! a = heap w ! a)"
proof -
  let ?k = "udn r"
  let ?old = "heap w ! a"
  let ?n = "length (heap w)"
  let ?new = "QueueSession_init r ts"
  have mem: "(?k, a) \<in> set (sessions w)" using existing by (rule map_of_SomeD)
  have dist: "distinct (map fst (sessions w))" using wf by (simp add: registry_ok_def)
  have all: "\<And>k' a'. (k', a') \<in> set (sessions w) \<Longrightarrow>
      a' < ?n \<and> udn (renderer (heap w ! a')) = k'"
    using wf by (auto simp add: registry_ok_def list_all_iff)
  have a_lt: "a < ?n" and old_k: "udn (renderer ?old) = ?k" using all [OF mem] by simp_all
  obtain res0 s0 w0 where st: "stop env ?old w = (res0, s0, w0)" by (metis prod_cases3)
  then have c: "cleanup env ?old (w\<lparr>calls := calls w @ stop_calls ?old\<rparr>) = (res0, w0)"
    by (auto simp add: stop_unfold split: prod.splits)
  have "fst (cleanup env ?old (w\<lparr>calls := calls w @ stop_calls ?old\<rparr>)) = Inr ()"
    using ok by (rule cleanup_ok)
  then have res0: "res0 = Inr ()" using c by simp
  from cleanup_world [OF c] old_k
  have s_w0: "sessions w0 = AList.delete ?k (sessions w)" and h_w0: "heap w0 = heap w"
    and c_w0: "\<exists>cs. calls w0 = calls w @ cs"
    by auto
  have reg0: "registered_for ?k w0 = 0"
    unfolding registered_for_def s_w0 by (rule registered_for_after_delete)
  have sa: "stop_at env a w = (Inr (), w0)"
    using stop_at_registered [OF a_lt, of env] st res0 by simp
  let ?w3 = "w0\<lparr>heap := heap w0 @ [?new],
      sessions := AList.update ?k (length (heap w0)) (sessions w0)\<rparr>"
  obtain r4 s4 w4 where sn: "start env ?new ?w3 = (r4, s4, w4)" by (metis prod_cases3)
  from start_world [OF sn]
  have s_w4: "sessions w4 = AList.delete ?k (sessions w) @ [(?k, ?n)]"
    and h_w4: "heap w4 = heap w @ [?new]"
    and r_s4: "renderer s4 = r" and t_s4: "tracks s4 = ts"
    and c_w4: "\<exists>cs. calls w4 = calls w0 @ cs"
    by (simp_all add: s_w0 h_w0 update_after_delete QueueSession_init_def)
  let ?w' = "w4\<lparr>heap := (heap w4)[?n := s4]\<rparr>"
  have nth3: "heap ?w3 ! ?n = ?new" by (simp add: h_w0)
  have sta: "start_at env ?n ?w3 = (r4, ?w')"
    using sn nth3 by (simp add: start_at_def h_w0)
  have pt: "play_tracks env r ts w =
      (case r4 of Inl e \<Rightarrow> (Inl e, ?w') | Inr _ \<Rightarrow> (Inr ?n, ?w'))"
    using existing sa sta by (simp add: play_tracks_def Let_def h_w0 split: sum.splits)
  have heap': "heap ?w' = heap w @ [s4]" by (simp add: h_w4)
  have sess': "sessions ?w' = AList.delete ?k (sessions w) @ [(?k, ?n)]" by (simp add: s_w4)
  have calls': "\<exists>cs. calls ?w' = calls w0 @ cs" using c_w4 by simp
  have get': "get_session ?k ?w' = Some ?n"
    by (simp add: get_session_def sess' map_add_def AList.delete_conv')
  have reg': "registered_for ?k ?w' = 1"
    unfolding registered_for_def sess' by (rule registered_for_after_replace)
  have dist': "distinct (map fst (sessions ?w'))"
    using dist by (auto simp add: sess' AList.distinct_delete AList.delete_notin_dom)
  have all': "list_all (\<lambda>(k', a'). a' < length (heap ?w') \<and> udn (renderer (heap ?w' ! a')) = k')
      (sessions ?w')"
    unfolding heap' sess'
    using all r_s4 by (auto simp add: list_all_iff delete_set nth_append)
  have ok': "registry_ok ?w'" unfolding registry_ok_def using dist' all' by blast
  have notin: "a \<notin> snd ` set (sessions ?w')"
  proof
    assume "a \<in> snd ` set (sessions ?w')"
    then obtain k' where k': "(k', a) \<in> set (AList.delete ?k (sessions w) @ [(?k, ?n)])"
      unfolding sess' by fastforce
    then have "(k', a) \<in> set (sessions w) \<and> k' \<noteq> ?k"
      using a_lt by (auto simp add: delete_set)
    then show False using all [of k' a] old_k by auto
  qed
  have new_r: "renderer (heap ?w' ! ?n) = r" "tracks (heap ?w' ! ?n) = ts"
    by (simp_all add: heap' r_s4 t_s4)
  have old_same: "heap ?w' ! a = heap w ! a" using a_lt by (simp add: heap' nth_append)
  have res: "fst (play_tracks env r ts w) = Inr ?n \<or> (\<exists>e. fst (play_tracks env r ts w) = Inl e)"
    by (cases r4) (simp_all add: pt)
  have w': "snd (play_tracks env r ts w) = ?w'"
    by (cases r4) (simp_all add: pt)
  show ?thesis
    using st res0 reg0 res get' a_lt reg' ok' notin calls' new_r old_same
    unfolding w' [symmetric]
    by (simp add: case_prod_beta)
qed

theorem play_tracks_replaces_session_witness:
  "registry_ok playing_world
   \<and> map_of (sessions playing_world) (udn hifi) = Some 0
   \<and> (\<forall>h. env_ok h StopServer)
   \<and> fst (stop env_ok (heap playing_world ! 0) playing_world) = Inr ()
   \<and> registered_for (udn hifi) (snd (snd (stop env_ok (heap playing_world ! 0) playing_world))) = 0
   \<and> get_session (udn hifi) (snd (play_tracks env_ok hifi [track_b] playing_world))
       = Some (length (heap playing_world))
   \<and> registered_for (udn hifi) (snd (play_tracks env_ok hifi [track_b] playing_world)) = 1
   \<and> registry_ok (snd (play_tracks env_ok hifi [track_b] playing_world))
   \<and> 0 \<notin> snd ` set (sessions (snd (play_tracks env_ok hifi [track_b] playing_world)))
   \<and> tracks (heap (snd (play_tracks env_ok hifi [track_b] playing_world))
        ! length (heap playing_world)) = [track_b]"
proof -
  have h1: "registry_ok playing_world" by code_simp
  have h2: "map_of (sessions playing_world) (udn hifi) = Some 0" by code_simp
  have h3: "\<forall>h. env_ok h StopServer" by (simp add: env_ok_def)
  show ?thesis
    using h1 h2 h3
      play_tracks_replaces_session [where w = playing_world and r = hifi and a = 0
        and env = env_ok and ts = "[track_b]"]
    by (simp add: case_prod_beta)
qed

section \<open>The discovery cache\<close>

lemma discover_renderers_searches:
  "searches (snd (discover_renderers env sc force w)) \<le> Suc (searches w)"
  by (simp add: discover_renderers_def searches_def invoke_def Let_def)

text \<open>
  C2, as the code has it. When a call of \<^verbatim>\<open>discover_renderers(force=False)\<close> has
  returned a non-empty list and a second call is made while the cache is younger than
  300 seconds, the second call returns the same list and changes nothing: no call is
  made to the network. The two calls together perform at most one multicast search.
\<close>

theorem cached_discovery_is_reused:
  assumes first: "discover_renderers env sc1 False w = (Inr rs, w1)"
    and nonempty: "rs \<noteq> []"
    and fresh: "t_check sc2 - cache_time w1 < CACHE_TTL"
  shows "discover_renderers env sc2 False w1 = (Inr rs, w1)
         \<and> searches w1 \<le> Suc (searches w)"
proof -
  have "renderer_cache w1 = rs"
    using first by (auto simp add: discover_renderers_def invoke_def Let_def split: if_splits)
  then have "discover_renderers env sc2 False w1 = (Inr rs, w1)"
    using nonempty fresh by (simp add: discover_renderers_def)
  moreover have "searches w1 \<le> Suc (searches w)"
    using discover_renderers_searches [of env sc1 False w] first by simp
  ultimately show ?thesis by simp
qed

theorem cached_discovery_is_reused_witness:
  "discover_renderers env_ok first_scan False world0
     = (Inr [hifi], snd (discover_renderers env_ok first_scan False world0))
   \<and> [hifi] \<noteq> []
   \<and> t_check second_scan - cache_time (snd (discover_renderers env_ok first_scan False world0))
       < CACHE_TTL
   \<and> discover_renderers env_ok second_scan False
        (snd (discover_renderers env_ok first_scan False world0))
       = (Inr [hifi], snd (discover_renderers env_ok first_scan False world0))
   \<and> searches (snd (discover_renderers env_ok first_scan False world0)) \<le> Suc (searches world0)"
proof -
  have h1: "discover_renderers env_ok first_scan False world0
     = (Inr [hifi], snd (discover_renderers env_ok first_scan False world0))"
    by (simp add: discover_renderers_def invoke_def env_ok_def first_scan_def world0_def)
  have h2: "[hifi] \<noteq> []" by simp
  have h3: "t_check second_scan
      - cache_time (snd (discover_renderers env_ok first_scan False world0)) < CACHE_TTL"
    by (simp add: discover_renderers_def invoke_def env_ok_def first_scan_def second_scan_def
        world0_def CACHE_TTL_def)
  show ?thesis
    using h1 h2 h3 cached_discovery_is_reused [OF h1 h2 h3] by blast
qed

text \<open>
  C2, as stated, fails for an empty cache: the guard \<^verbatim>\<open>_renderer_cache and ...\<close> never
  treats an empty list as fresh. On a network without renderers two calls ten seconds
  apart each perform a multicast search.
\<close>

theorem empty_cache_searches_twice_counterexample:
  "discover_renderers env_ok empty_first_scan False world0
     = (Inr [], snd (discover_renderers env_ok empty_first_scan False world0))
   \<and> t_check empty_second_scan
       - cache_time (snd (discover_renderers env_ok empty_first_scan False world0)) < CACHE_TTL
   \<and> calls (snd (discover_renderers env_ok empty_second_scan False
               (snd (discover_renderers env_ok empty_first_scan False world0))))
       = [SsdpSearch, SsdpSearch]"
  by (simp add: discover_renderers_def invoke_def env_ok_def empty_first_scan_def
      empty_second_scan_def world0_def CACHE_TTL_def)

section \<open>Resolving a renderer by name\<close>

lemma starts_with_iff: "starts_with ys xs \<longleftrightarrow> (\<exists>ss. ys = xs @ ss)"
  by (induction ys xs rule: starts_with.induct) auto

lemma py_in_iff: "py_in xs ys \<longleftrightarrow> (\<exists>ps ss. ys = ps @ xs @ ss)"
proof (induction ys)
  case Nil
  then show ?case by auto
next
  case (Cons y ys)
  show ?case
  proof
    assume "py_in xs (y # ys)"
    then consider "starts_with (y # ys) xs" | "py_in xs ys" by auto
    then show "\<exists>ps ss. y # ys = ps @ xs @ ss"
    proof cases
      case 1
      then obtain ss where "y # ys = xs @ ss" using starts_with_iff by blast
      then have "y # ys = [] @ xs @ ss" by simp
      then show ?thesis by blast
    next
      case 2
      then obtain ps ss where "ys = ps @ xs @ ss" using Cons.IH by blast
      then have "y # ys = (y # ps) @ xs @ ss" by simp
      then show ?thesis by blast
    qed
  next
    assume "\<exists>ps ss. y # ys = ps @ xs @ ss"
    then obtain ps ss where e: "y # ys = ps @ xs @ ss" by blast
    show "py_in xs (y # ys)"
    proof (cases ps)
      case Nil
      then have "starts_with (y # ys) xs" using e starts_with_iff by fastforce
      then show ?thesis by simp
    next
      case (Cons p ps')
      then have "ys = ps' @ xs @ ss" using e by simp
      then have "py_in xs ys" using Cons.IH by blast
      then show ?thesis by simp
    qed
  qed
qed

lemma first_at_Cons:
  "first_at P (x # xs) i \<longleftrightarrow> (if P x then i = 0 else \<exists>j. i = Suc j \<and> first_at P xs j)"
proof (cases "P x")
  case True
  then show ?thesis by (auto simp add: first_at_def)
next
  case False
  show ?thesis
  proof (cases i)
    case 0
    then show ?thesis using False by (simp add: first_at_def)
  next
    case (Suc j)
    have "(\<forall>k<Suc j. \<not> P ((x # xs) ! k)) \<longleftrightarrow> (\<forall>k<j. \<not> P (xs ! k))"
      using False by (auto simp add: less_Suc_eq_0_disj)
    then show ?thesis using False Suc by (simp add: first_at_def)
  qed
qed

lemma exact_match_first:
  "first_at (\<lambda>r. lower (name r) = nl) rs i \<Longrightarrow> exact_match lower nl rs = Some (rs ! i)"
proof (induction rs arbitrary: i)
  case Nil
  then show ?case by (simp add: first_at_def)
next
  case (Cons r rs)
  then show ?case by (auto simp add: first_at_Cons split: if_splits)
qed

lemma exact_match_None:
  "exact_match lower nl rs = None \<longleftrightarrow> (\<forall>r \<in> set rs. lower (name r) \<noteq> nl)"
  by (induction rs) auto

lemma substring_match_first:
  "first_at (\<lambda>r. py_in nl (lower (name r))) rs i \<Longrightarrow> substring_match lower nl rs = Some (rs ! i)"
proof (induction rs arbitrary: i)
  case Nil
  then show ?case by (simp add: first_at_def)
next
  case (Cons r rs)
  then show ?case by (auto simp add: first_at_Cons split: if_splits)
qed

lemma substring_match_None:
  "substring_match lower nl rs = None \<longleftrightarrow> (\<forall>r \<in> set rs. \<not> py_in nl (lower (name r)))"
  by (induction rs) auto

text \<open>
  C8. \<^verbatim>\<open>find_renderer\<close> first calls \<^verbatim>\<open>discover_renderers(force=False)\<close>; when that
  returns a list, the result is never an error and the world is the one discovery left.
  Names are compared after \<^verbatim>\<open>str.lower\<close>, here the parameter \<open>lower\<close>, so what follows
  holds whatever the library's case folding does to a name, ASCII or not: the first
  renderer whose full name equals the argument wins, wherever a mere substring match
  stands in the list; when no name is equal, the first renderer in discovery order whose
  name contains the argument wins; when no name contains it, the result is
  \<^verbatim>\<open>None\<close>. Arguments that differ only in case resolve alike.
\<close>

theorem find_renderer_resolution:
  assumes disc: "discover_renderers env sc False w = (Inr rs, w1)"
  shows "find_renderer env lower sc nm w = (Inr (match_renderer lower rs nm), w1)
    \<and> (\<forall>i. first_at (\<lambda>r. lower (name r) = lower nm) rs i \<longrightarrow>
           match_renderer lower rs nm = Some (rs ! i))
    \<and> ((\<forall>r \<in> set rs. lower (name r) \<noteq> lower nm) \<longrightarrow>
         (\<forall>i. first_at (\<lambda>r. \<exists>ps ss. lower (name r) = ps @ lower nm @ ss) rs i \<longrightarrow>
           match_renderer lower rs nm = Some (rs ! i)))
    \<and> ((\<forall>r \<in> set rs. \<not> (\<exists>ps ss. lower (name r) = ps @ lower nm @ ss)) \<longrightarrow>
         match_renderer lower rs nm = None)
    \<and> (\<forall>nm'. lower nm' = lower nm \<longrightarrow>
         find_renderer env lower sc nm' w = find_renderer env lower sc nm w)"
proof -
  have a: "find_renderer env lower sc nm w = (Inr (match_renderer lower rs nm), w1)"
    using disc by (simp add: find_renderer_def)
  have b: "match_renderer lower rs nm = Some (rs ! i)"
    if "first_at (\<lambda>r. lower (name r) = lower nm) rs i" for i
    using exact_match_first [OF that] by (simp add: match_renderer_def)
  have c: "match_renderer lower rs nm = Some (rs ! i)"
    if none: "\<forall>r \<in> set rs. lower (name r) \<noteq> lower nm"
      and f: "first_at (\<lambda>r. \<exists>ps ss. lower (name r) = ps @ lower nm @ ss) rs i" for i
  proof -
    have "exact_match lower (lower nm) rs = None" using none by (simp add: exact_match_None)
    moreover have "first_at (\<lambda>r. py_in (lower nm) (lower (name r))) rs i"
      using f by (simp add: py_in_iff)
    ultimately show ?thesis
      using substring_match_first by (simp add: match_renderer_def)
  qed
  have d: "match_renderer lower rs nm = None"
    if none: "\<forall>r \<in> set rs. \<not> (\<exists>ps ss. lower (name r) = ps @ lower nm @ ss)"
  proof -
    have s: "substring_match lower (lower nm) rs = None"
      using none by (simp add: substring_match_None py_in_iff)
    have "lower (name r) \<noteq> lower nm" if "r \<in> set rs" for r
    proof
      assume "lower (name r) = lower nm"
      then have "lower (name r) = [] @ lower nm @ []" by simp
      then show False using none that by blast
    qed
    then have "exact_match lower (lower nm) rs = None" by (simp add: exact_match_None)
    then show ?thesis using s by (simp add: match_renderer_def)
  qed
  have e: "find_renderer env lower sc nm' w = find_renderer env lower sc nm w" if "lower nm' = lower nm" for nm'
  proof -
    have "match_renderer lower xs nm' = match_renderer lower xs nm" for xs
      using that by (simp add: match_renderer_def)
    then show ?thesis by (simp add: find_renderer_def split: prod.splits sum.splits)
  qed
  show ?thesis using a b c d e by blast
qed

lemma ascii_lower_samples:
  "ascii_lower ''samsung tv'' = ''samsung tv''"
  "ascii_lower ''Samsung TV'' = ''samsung tv''"
  "ascii_lower ''Samsung TV Living Room'' = ''samsung tv living room''"
  by code_simp+

theorem find_renderer_resolution_witness:
  "discover_renderers env_ok tv_scan False tv_world
     = (Inr [samsung_tv_living_room, samsung_tv], tv_world)
   \<and> first_at (\<lambda>r. ascii_lower (name r) = ascii_lower ''samsung tv'') [samsung_tv_living_room, samsung_tv] 1
   \<and> find_renderer env_ok ascii_lower tv_scan ''samsung tv'' tv_world = (Inr (Some samsung_tv), tv_world)
   \<and> find_renderer env_ok ascii_lower tv_scan ''Samsung TV'' tv_world = (Inr (Some samsung_tv), tv_world)"
proof -
  have h: "discover_renderers env_ok tv_scan False tv_world
     = (Inr [samsung_tv_living_room, samsung_tv], tv_world)"
    by (simp add: discover_renderers_def tv_world_def tv_scan_def world0_def CACHE_TTL_def)
  have f: "first_at (\<lambda>r. ascii_lower (name r) = ascii_lower ''samsung tv'')
      [samsung_tv_living_room, samsung_tv] 1"
    by (simp add: first_at_def samsung_tv_def samsung_tv_living_room_def ascii_lower_samples)
  have l: "ascii_lower ''Samsung TV'' = ascii_lower ''samsung tv''" by (simp add: ascii_lower_samples)
  note r = find_renderer_resolution [where lower = ascii_lower and nm = "''samsung tv''", OF h]
  from r f have m: "match_renderer ascii_lower [samsung_tv_living_room, samsung_tv] ''samsung tv''
      = Some ([samsung_tv_living_room, samsung_tv] ! 1)"
    by blast
  from r have a: "find_renderer env_ok ascii_lower tv_scan ''samsung tv'' tv_world
      = (Inr (match_renderer ascii_lower [samsung_tv_living_room, samsung_tv] ''samsung tv''), tv_world)"
    by blast
  from r l have b: "find_renderer env_ok ascii_lower tv_scan ''Samsung TV'' tv_world
      = find_renderer env_ok ascii_lower tv_scan ''samsung tv'' tv_world"
    by blast
  show ?thesis using h f a b m by simp
qed

section \<open>The play\_tracks tool\<close>

lemma Track_init_unexpected_keyword:
  "k \<in> set (map fst kw) \<Longrightarrow> k \<notin> set Track_fields \<Longrightarrow> Track_init kw = Inl TypeError"
  by (auto simp add: Track_init_def list_all_iff)

lemma build_tracks_raises:
  "truthy (get_or t ''url'' JNull) \<Longrightarrow> build_tracks i (JObj t # ts) acc = Inl TypeError"
  by (simp add: Track_init_unexpected_keyword [of "''media_type''"] Track_fields_def)

text \<open>
  C5 fails on the code. The tool passes \<^verbatim>\<open>media_type=...\<close> to \<^verbatim>\<open>Track(...)\<close>, which
  has no such field, so constructing the first track raises \<^verbatim>\<open>TypeError\<close>, outside
  the tool's \<^verbatim>\<open>try\<close>. With a renderer that resolves and the two well-formed tracks of
  the repository's own test, the tool raises instead of returning a result.
\<close>

theorem play_tracks_tool_raises_type_error:
  \<open>fst (find_renderer env_ok ascii_lower first_scan ''HiFiBerry'' world0) = Inr (Some hifi)
   \<and> fst (play_tracks_tool env_ok ascii_lower json_samples first_scan ''HiFiBerry'' two_tracks_text world0)
       = Inl TypeError\<close>
  by code_simp

text \<open>
  The same defect hides a missing \<^verbatim>\<open>url\<close> behind a well-formed first item: the tool
  raises at item 0 and never names item 1.
\<close>

lemma later_missing_url_not_reported:
  \<open>fst (play_tracks_tool env_ok ascii_lower json_samples first_scan ''HiFiBerry''
          ''[{"url": "http://jellyfin/track1.flac"}, {"title": "No URL"}]'' world0)
     = Inl TypeError\<close>
  by code_simp







end
